theory Spec2Isabelle
  imports Main "HOL-Library.Word"
begin

unbundle bit_operations_syntax

section \<open>Bytes, buffers and the output stream\<close>

text \<open>
  The two formatters at the end of \<^verbatim>\<open>Nl80211.cpp\<close> receive the payload of one
  netlink attribute and append text to a \<^verbatim>\<open>std::stringstream\<close>. The payload is a
  list of bytes; \<^verbatim>\<open>bytes.len()\<close> is its length and \<^verbatim>\<open>bytes.ptr() + i\<close> is position
  \<open>i\<close> of the list. Sizes and offsets are \<^verbatim>\<open>size_t\<close> values that never exceed the
  payload length plus 257, so they are natural numbers here.
\<close>

type_synonym byte = "8 word"

text \<open>
  C++ reads through raw pointers. A read that leaves the payload is undefined behaviour;
  the model makes it a value, so that "no read past the extent" is a statement about
  the result.
\<close>

datatype fault = OutOfBounds

definition read_bytes :: "byte list \<Rightarrow> nat \<Rightarrow> nat \<Rightarrow> fault + byte list" where
  "read_bytes buf off n =
     (if off + n \<le> length buf then Inr (take n (drop off buf)) else Inl OutOfBounds)"

text \<open>
  Of the stream's state the formatters touch the text, the fill character (used by
  \<^verbatim>\<open>std::setw(4)\<close>) and the number base. Every \<^verbatim>\<open>std::hex\<close> of the source is
  followed by \<^verbatim>\<open>std::dec\<close> after one number, and a field width lasts for one
  insertion only; the stream is taken to arrive in decimal base with no pending width,
  right-adjusted, as the formatters leave it. The fill character is whatever the caller
  has set.
\<close>

record stringstream =
  contents :: string
  fill :: char

definition put :: "stringstream \<Rightarrow> string \<Rightarrow> stringstream" where
  "put s t = s\<lparr>contents := contents s @ t\<rparr>"

definition digit_char :: "nat \<Rightarrow> char" where
  "digit_char d = ''0123456789abcdef'' ! d"

fun show_dec :: "nat \<Rightarrow> string" where
  "show_dec n =
     (if n < 10 then [digit_char n] else show_dec (n div 10) @ [digit_char (n mod 10)])"

fun show_hex :: "nat \<Rightarrow> string" where
  "show_hex n =
     (if n < 16 then [digit_char n] else show_hex (n div 16) @ [digit_char (n mod 16)])"

declare show_dec.simps [simp del] show_hex.simps [simp del]

definition setw :: "nat \<Rightarrow> char \<Rightarrow> string \<Rightarrow> string" where
  "setw w c t = replicate (w - length t) c @ t"

text \<open>\<^verbatim>\<open>ss << n\<close> for an unsigned or non-negative number in decimal base.\<close>

definition put_dec :: "stringstream \<Rightarrow> nat \<Rightarrow> stringstream" where
  "put_dec s n = put s (show_dec n)"

text \<open>\<^verbatim>\<open>ss << std::hex << std::setw(4) << v << std::dec\<close> for a \<^verbatim>\<open>uint16_t\<close>.\<close>

definition hex4 :: "char \<Rightarrow> 16 word \<Rightarrow> string" where
  "hex4 c v = setw 4 c (show_hex (unat v))"

definition put_hex4 :: "stringstream \<Rightarrow> 16 word \<Rightarrow> stringstream" where
  "put_hex4 s v = put s (hex4 (fill s) v)"

definition byte_to_char :: "byte \<Rightarrow> char" where
  "byte_to_char b = char_of (unat b)"

section \<open>The information-elements formatter\<close>

definition kCompactIE :: bool where
  "kCompactIE = True"

definition WLAN_EID_SSID :: byte where
  "WLAN_EID_SSID = 0"

record IEHeader =
  elementId :: byte
  length_field :: byte

definition sizeof_IEHeader :: nat where
  "sizeof_IEHeader = 2"

text \<open>\<^verbatim>\<open>memcpy(&ieHeader, ptr, sizeof(IEHeader))\<close> on the packed two-byte struct.\<close>

definition memcpy_IEHeader :: "byte list \<Rightarrow> nat \<Rightarrow> fault + IEHeader" where
  "memcpy_IEHeader buf off =
     (case read_bytes buf off sizeof_IEHeader of
        Inl e \<Rightarrow> Inl e
      | Inr raw \<Rightarrow> Inr \<lparr>elementId = raw ! 0, length_field = raw ! 1\<rparr>)"

text \<open>The loop's variables: the stream, the flag of \<^verbatim>\<open>printComma\<close> and the offset.\<close>

record ie_state =
  ss :: stringstream
  first :: bool
  offset :: nat

definition printComma :: "ie_state \<Rightarrow> ie_state" where
  "printComma st =
     st\<lparr>ss := (if \<not> first st then put (ss st) '', '' else ss st), first := False\<rparr>"

text \<open>
  One run of the loop body. \<open>Break\<close> is the source's \<^verbatim>\<open>break\<close>, \<open>Continue\<close> both its
  \<^verbatim>\<open>continue\<close> and the end of the body. The helpers \<^verbatim>\<open>crc16\<close> and
  \<^verbatim>\<open>printableOnly\<close> are declared in \<^verbatim>\<open>common.h\<close>, which is not part of the sources
  at hand: they are parameters. The compile-time constant \<^verbatim>\<open>kCompactIE\<close> of the two
  \<^verbatim>\<open>if constexpr\<close> is the parameter \<open>compact\<close>. The payload of an element is read
  where the source reads it: when the SSID string is built and when \<^verbatim>\<open>crc16(data)\<close>
  runs.
\<close>

datatype 'a ctl = Continue 'a | Break 'a

definition ie_body ::
  "bool \<Rightarrow> (byte list \<Rightarrow> 16 word) \<Rightarrow> (string \<Rightarrow> string) \<Rightarrow> byte list \<Rightarrow> ie_state
     \<Rightarrow> fault + ie_state ctl" where
  \<open>ie_body compact crc16 printableOnly bytes st =
     (let remainingLen = length bytes - offset st in
      if sizeof_IEHeader > remainingLen then Inr (Break st)
      else
        case memcpy_IEHeader bytes (offset st) of
          Inl e \<Rightarrow> Inl e
        | Inr ieHeader \<Rightarrow>
            if sizeof_IEHeader + unat (length_field ieHeader) > remainingLen then
              (let st1 = printComma st in Inr (Break (st1\<lparr>ss := put (ss st1) ''ERR''\<rparr>)))
            else
              let st1 = st\<lparr>offset := offset st + (sizeof_IEHeader + unat (length_field ieHeader))\<rparr>
              in
                if elementId ieHeader = WLAN_EID_SSID then
                  (case read_bytes bytes (offset st + sizeof_IEHeader)
                          (unat (length_field ieHeader)) of
                     Inl e \<Rightarrow> Inl e
                   | Inr dat \<Rightarrow>
                       let st2 = printComma st1;
                           ssid = map byte_to_char dat
                       in Inr (Continue (st2\<lparr>ss :=
                            put (put (put (ss st2) ''SSID="'') (printableOnly ssid)) ''"''\<rparr>)))
                else if compact then Inr (Continue st1)
                else
                  (case read_bytes bytes (offset st + sizeof_IEHeader)
                          (unat (length_field ieHeader)) of
                     Inl e \<Rightarrow> Inl e
                   | Inr dat \<Rightarrow>
                       let st2 = printComma st1;
                           s1 = put (put_dec (put (put_dec (ss st2) (unat (elementId ieHeader)))
                                  '':'') (unat (length_field ieHeader))) ''/''
                       in Inr (Continue (st2\<lparr>ss := put_hex4 s1 (crc16 dat)\<rparr>))))\<close>

function ie_loop ::
  "bool \<Rightarrow> (byte list \<Rightarrow> 16 word) \<Rightarrow> (string \<Rightarrow> string) \<Rightarrow> byte list \<Rightarrow> ie_state
     \<Rightarrow> fault + ie_state" where
  "ie_loop compact crc16 printableOnly bytes st =
     (if offset st < length bytes then
        (case ie_body compact crc16 printableOnly bytes st of
           Inl e \<Rightarrow> Inl e
         | Inr (Break st') \<Rightarrow> Inr st'
         | Inr (Continue st') \<Rightarrow> ie_loop compact crc16 printableOnly bytes st')
      else Inr st)"
  by pat_completeness auto

termination
proof (relation "measure (\<lambda>(compact, crc16, po, bytes, st). length bytes - offset st)")
  show "wf (measure (\<lambda>(compact, crc16, po, bytes, st). length bytes - offset (st::ie_state)))"
    by simp
next
  fix compact crc16 po bytes and st :: ie_state and r st'
  assume "offset st < length bytes" "ie_body compact crc16 po bytes st = Inr r"
    "r = Continue st'"
  then have "offset st < offset st'" "offset st' \<le> length bytes"
    by (auto simp: ie_body_def memcpy_IEHeader_def read_bytes_def sizeof_IEHeader_def Let_def
          printComma_def split: sum.splits if_splits)
  then show "((compact, crc16, po, bytes, st'), (compact, crc16, po, bytes, st))
      \<in> measure (\<lambda>(compact, crc16, po, bytes, st). length bytes - offset st)"
    by auto
qed

declare ie_loop.simps [simp del]

text \<open>
  The text written before the loop: the opening brace and, in compact mode, the length and
  checksum of the whole payload.
\<close>

definition ie_prologue ::
  "bool \<Rightarrow> (byte list \<Rightarrow> 16 word) \<Rightarrow> stringstream \<Rightarrow> byte list \<Rightarrow> stringstream" where
  "ie_prologue compact crc16 s bytes =
     (let s1 = put s ''{'' in
      if compact then
        put (put_hex4 (put (put (put_dec (put s1 ''len='') (length bytes)) '', '') ''crc='')
               (crc16 bytes)) '', ''
      else s1)"

definition ie_init ::
  "bool \<Rightarrow> (byte list \<Rightarrow> 16 word) \<Rightarrow> stringstream \<Rightarrow> byte list \<Rightarrow> ie_state" where
  "ie_init compact crc16 s bytes =
     \<lparr>ss = ie_prologue compact crc16 s bytes, first = True, offset = 0\<rparr>"

definition informationElementsToStream ::
  "bool \<Rightarrow> (byte list \<Rightarrow> 16 word) \<Rightarrow> (string \<Rightarrow> string) \<Rightarrow> stringstream \<Rightarrow> byte list
     \<Rightarrow> fault + stringstream" where
  "informationElementsToStream compact crc16 printableOnly s bytes =
     (case ie_loop compact crc16 printableOnly bytes (ie_init compact crc16 s bytes) of
        Inl e \<Rightarrow> Inl e
      | Inr st \<Rightarrow> Inr (put (ss st) ''}''))"

text \<open>
  The same loop, recording the offset at which each iteration starts: one entry per run
  of the body, in order.
\<close>

function ie_offsets ::
  "bool \<Rightarrow> (byte list \<Rightarrow> 16 word) \<Rightarrow> (string \<Rightarrow> string) \<Rightarrow> byte list \<Rightarrow> ie_state
     \<Rightarrow> nat list" where
  "ie_offsets compact crc16 printableOnly bytes st =
     (if offset st < length bytes then
        offset st #
        (case ie_body compact crc16 printableOnly bytes st of
           Inl e \<Rightarrow> []
         | Inr (Break st') \<Rightarrow> []
         | Inr (Continue st') \<Rightarrow> ie_offsets compact crc16 printableOnly bytes st')
      else [])"
  by pat_completeness auto

termination
proof (relation "measure (\<lambda>(compact, crc16, po, bytes, st). length bytes - offset st)")
  show "wf (measure (\<lambda>(compact, crc16, po, bytes, st). length bytes - offset (st::ie_state)))"
    by simp
next
  fix compact crc16 po bytes and st :: ie_state and r st'
  assume "offset st < length bytes" "ie_body compact crc16 po bytes st = Inr r"
    "r = Continue st'"
  then have "offset st < offset st'" "offset st' \<le> length bytes"
    by (auto simp: ie_body_def memcpy_IEHeader_def read_bytes_def sizeof_IEHeader_def Let_def
          printComma_def split: sum.splits if_splits)
  then show "((compact, crc16, po, bytes, st'), (compact, crc16, po, bytes, st))
      \<in> measure (\<lambda>(compact, crc16, po, bytes, st). length bytes - offset st)"
    by auto
qed

declare ie_offsets.simps [simp del]

subsection \<open>Well-formed element streams and the text expected for them\<close>

text \<open>
  The wire format of one element: the identifier, the payload length in one byte, the
  payload. A stream of elements is their concatenation. A payload longer than 255 bytes
  has no encoding.
\<close>

definition ie_element :: "byte \<Rightarrow> byte list \<Rightarrow> byte list" where
  "ie_element eid dat = eid # of_nat (length dat) # dat"

fun ie_encode :: "(byte \<times> byte list) list \<Rightarrow> byte list" where
  "ie_encode [] = []"
| "ie_encode (e # es) = ie_element (fst e) (snd e) @ ie_encode es"

definition ie_valid :: "(byte \<times> byte list) list \<Rightarrow> bool" where
  "ie_valid es = list_all (\<lambda>e. length (snd e) < 256) es"

text \<open>The two kinds of entry the loop prints for an element.\<close>

definition ssid_entry :: "(string \<Rightarrow> string) \<Rightarrow> byte list \<Rightarrow> string" where
  \<open>ssid_entry printableOnly dat = ''SSID="'' @ printableOnly (map byte_to_char dat) @ ''"''\<close>

definition summary_entry ::
  "(byte list \<Rightarrow> 16 word) \<Rightarrow> char \<Rightarrow> byte \<Rightarrow> byte list \<Rightarrow> string" where
  "summary_entry crc16 c eid dat =
     show_dec (unat eid) @ '':'' @ show_dec (length dat) @ ''/'' @ hex4 c (crc16 dat)"

definition full_entry ::
  "(byte list \<Rightarrow> 16 word) \<Rightarrow> (string \<Rightarrow> string) \<Rightarrow> char \<Rightarrow> byte \<times> byte list \<Rightarrow> string" where
  "full_entry crc16 printableOnly c e =
     (if fst e = WLAN_EID_SSID then ssid_entry printableOnly (snd e)
      else summary_entry crc16 c (fst e) (snd e))"

definition ssid_payloads :: "(byte \<times> byte list) list \<Rightarrow> byte list list" where
  "ssid_payloads es = map snd (filter (\<lambda>e. fst e = WLAN_EID_SSID) es)"

fun ie_entries ::
  "bool \<Rightarrow> (byte list \<Rightarrow> 16 word) \<Rightarrow> (string \<Rightarrow> string) \<Rightarrow> char \<Rightarrow> (byte \<times> byte list) list
     \<Rightarrow> string list" where
  "ie_entries compact crc16 printableOnly c [] = []"
| "ie_entries compact crc16 printableOnly c (e # es) =
     (if fst e = WLAN_EID_SSID then [ssid_entry printableOnly (snd e)]
      else if compact then []
      else [summary_entry crc16 c (fst e) (snd e)])
     @ ie_entries compact crc16 printableOnly c es"

text \<open>
  Entries with the separator of \<^verbatim>\<open>printComma\<close>: before every entry but the first when
  the flag is set, before every entry otherwise.
\<close>

fun sep_entries :: "bool \<Rightarrow> string list \<Rightarrow> string" where
  "sep_entries f [] = []"
| "sep_entries f (e # es) = (if f then [] else '', '') @ e @ sep_entries False es"

definition ie_summary :: "bool \<Rightarrow> (byte list \<Rightarrow> 16 word) \<Rightarrow> char \<Rightarrow> byte list \<Rightarrow> string" where
  "ie_summary compact crc16 c bytes =
     (if compact then
        ''len='' @ show_dec (length bytes) @ '', crc='' @ hex4 c (crc16 bytes) @ '', ''
      else [])"

section \<open>The pattern-support formatter\<close>

record nl80211_pattern_support =
  max_patterns :: "32 word"
  min_pattern_len :: "32 word"
  max_pattern_len :: "32 word"
  max_pkt_offset :: "32 word"

definition sizeof_nl80211_pattern_support :: nat where
  "sizeof_nl80211_pattern_support = 16"

text \<open>
  Modelled from the spec: \<^verbatim>\<open>Buffer<T>::getFirst\<close> of libnl++ (\<^verbatim>\<open>Buffer.h\<close>, not among
  the sources at hand) and the layout of \<^verbatim>\<open>struct nl80211_pattern_support\<close> (four
  \<^verbatim>\<open>__u32\<close>, from the kernel's \<^verbatim>\<open>nl80211.h\<close>). The typed read "reinterprets the first
  \<^verbatim>\<open>sizeof(T)\<close> bytes as \<^verbatim>\<open>T\<close>, failing (never reading memory) if insufficient bytes
  remain". On failure the flag is false and the value is a zeroed struct. The byte order
  of a \<^verbatim>\<open>__u32\<close> is the host's: \<open>u32\<close> is the parameter that reads one from four bytes.
\<close>

definition getFirst :: "(byte list \<Rightarrow> 32 word) \<Rightarrow> byte list \<Rightarrow> bool \<times> nl80211_pattern_support" where
  "getFirst u32 bytes =
     (if sizeof_nl80211_pattern_support \<le> length bytes then
        (True, \<lparr>max_patterns = u32 (take 4 bytes),
                min_pattern_len = u32 (take 4 (drop 4 bytes)),
                max_pattern_len = u32 (take 4 (drop 8 bytes)),
                max_pkt_offset = u32 (take 4 (drop 12 bytes))\<rparr>)
      else
        (False, \<lparr>max_patterns = 0, min_pattern_len = 0, max_pattern_len = 0,
                 max_pkt_offset = 0\<rparr>))"

definition nl80211_pattern_supportToStream ::
  "(byte list \<Rightarrow> 32 word) \<Rightarrow> stringstream \<Rightarrow> byte list \<Rightarrow> stringstream" where
  "nl80211_pattern_supportToStream u32 s bytes =
     (case getFirst u32 bytes of
        (ok, dat) \<Rightarrow>
          if \<not> ok then put s ''invalid structure''
          else
            put (put_dec (put (put_dec (put (put_dec (put (put_dec (put s ''{'')
              (unat (max_patterns dat))) '','')
              (unat (min_pattern_len dat))) '','')
              (unat (max_pattern_len dat))) '','')
              (unat (max_pkt_offset dat))) ''}'')"

section \<open>Stand-ins for the helpers, for concrete runs\<close>

text \<open>
  Modelled from the spec: \<^verbatim>\<open>crc16\<close> of \<^verbatim>\<open>common.h\<close> is "a deterministic,
  order-dependent 16-bit checksum (e.g. CRC-16) over an arbitrary byte range". The
  reflected CRC-16 with polynomial \<open>0xA001\<close> and start value 0 is one such function.
\<close>

definition crc16_bit :: "16 word \<Rightarrow> 16 word" where
  "crc16_bit crc = (if crc AND 1 = 1 then drop_bit 1 crc XOR 0xA001 else drop_bit 1 crc)"

definition crc16_byte :: "16 word \<Rightarrow> byte \<Rightarrow> 16 word" where
  "crc16_byte crc b = (crc16_bit ^^ 8) (crc XOR ucast b)"

definition crc16_model :: "byte list \<Rightarrow> 16 word" where
  "crc16_model bytes = foldl crc16_byte 0 bytes"

text \<open>
  Modelled from the spec: \<^verbatim>\<open>printableOnly\<close> of \<^verbatim>\<open>common.h\<close> "maps a byte sequence to
  a display string, replacing or dropping bytes outside a printable range" and "leaves
  printable ASCII untouched". Here a byte outside \<open>0x20 .. 0x7E\<close> becomes a question mark.
\<close>

definition isprint :: "char \<Rightarrow> bool" where
  "isprint c = (0x20 \<le> (of_char c :: nat) \<and> (of_char c :: nat) \<le> 0x7E)"

definition printableOnly_model :: "string \<Rightarrow> string" where
  "printableOnly_model t = map (\<lambda>c. if isprint c then c else CHR ''?'') t"

text \<open>A \<^verbatim>\<open>__u32\<close> read in little-endian byte order.\<close>

definition u32_le :: "byte list \<Rightarrow> 32 word" where
  "u32_le bs = foldr (\<lambda>b acc. ucast b + 256 * acc) bs 0"

text \<open>The stream a caller hands over: no text yet, zero as the fill character.\<close>

definition ss0 :: stringstream where
  "ss0 = \<lparr>contents = [], fill = CHR ''0''\<rparr>"

text \<open>
  Text that neither begins with an opening brace nor ends with a closing one; used to
  tell the braces of the group from what stands between them.
\<close>

definition plain_ends :: "string \<Rightarrow> bool" where
  "plain_ends t = (take 1 t \<noteq> ''{'' \<and> take 1 (rev t) \<noteq> ''}'')"

section \<open>Properties\<close>

subsection \<open>Stream and body facts\<close>

lemma offset_printComma [simp]: "offset (printComma st) = offset st"
  by (simp add: printComma_def)

lemma first_printComma [simp]: "first (printComma st) = False"
  by (simp add: printComma_def)

lemma ie_body_no_fault: "ie_body compact crc16 po bytes st \<noteq> Inl e"
  by (auto simp: ie_body_def memcpy_IEHeader_def read_bytes_def sizeof_IEHeader_def Let_def
           split: sum.splits)

lemma ie_body_Continue:
  assumes "ie_body compact crc16 po bytes st = Inr (Continue st')"
  shows "offset st' = offset st + 2 + unat (bytes ! (offset st + 1))"
    and "offset st' \<le> length bytes"
  using assms
  by (auto simp: ie_body_def memcpy_IEHeader_def read_bytes_def sizeof_IEHeader_def Let_def
           split: sum.splits if_splits)

lemma ie_loop_no_fault: "ie_loop compact crc16 po bytes st \<noteq> Inl e"
proof (induction compact crc16 po bytes st rule: ie_loop.induct)
  case (1 compact crc16 po bytes st)
  show ?case
  proof (cases "ie_body compact crc16 po bytes st")
    case (Inl a)
    then show ?thesis using ie_body_no_fault by blast
  next
    case (Inr r)
    then show ?thesis
      using 1 by (cases r) (auto simp: ie_loop.simps [of compact crc16 po bytes st])
  qed
qed

lemma put_put [simp]: "put (put s a) b = put s (a @ b)"
  by (simp add: put_def)

lemma put_Nil [simp]: "put s [] = s"
  by (simp add: put_def)

lemma fill_put [simp]: "fill (put s t) = fill s"
  by (simp add: put_def)

lemma contents_put [simp]: "contents (put s t) = contents s @ t"
  by (simp add: put_def)

lemma put_dec_eq: "put_dec s n = put s (show_dec n)"
  by (simp add: put_dec_def)

lemma put_hex4_eq: "put_hex4 s v = put s (hex4 (fill s) v)"
  by (simp add: put_hex4_def)

lemma ie_prologue_eq:
  "ie_prologue compact crc16 s bytes = put s (''{'' @ ie_summary compact crc16 (fill s) bytes)"
  by (simp add: ie_prologue_def ie_summary_def put_dec_eq put_hex4_eq Let_def)

lemma sep_entries_append:
  "sep_entries f (xs @ ys) = sep_entries f xs @ sep_entries (f \<and> xs = []) ys"
  by (induction xs arbitrary: f) auto

lemma unat_length_byte: "n < 256 \<Longrightarrow> unat (of_nat n :: byte) = n"
  by (simp add: unat_of_nat)

lemma read_bytes_mid: "read_bytes (pre @ dat @ post) (length pre) (length dat) = Inr dat"
  by (simp add: read_bytes_def)

lemma memcpy_IEHeader_at:
  "memcpy_IEHeader (pre @ eid # l # rest) (length pre) = Inr \<lparr>elementId = eid, length_field = l\<rparr>"
  by (simp add: memcpy_IEHeader_def read_bytes_def sizeof_IEHeader_def)

lemma ie_body_element:
  assumes "length dat < 256"
  shows "ie_body compact crc16 po (pre @ ie_element eid dat @ post)
           \<lparr>ss = s, first = f, offset = length pre\<rparr> =
         Inr (Continue \<lparr>ss = put s (sep_entries f (ie_entries compact crc16 po (fill s) [(eid, dat)])),
                         first = (f \<and> ie_entries compact crc16 po (fill s) [(eid, dat)] = []),
                         offset = length pre + length (ie_element eid dat)\<rparr>)"
proof -
  have rd: "read_bytes (pre @ e # of_nat (length dat) # dat @ post) (Suc (Suc (length pre)))
      (length dat) = Inr dat" for e
    using read_bytes_mid [of "pre @ [e, of_nat (length dat)]" dat post] by simp
  show ?thesis
    using assms
    by (simp add: rd ie_body_def ie_element_def memcpy_IEHeader_at unat_length_byte
        sizeof_IEHeader_def Let_def printComma_def put_dec_eq put_hex4_eq
        ssid_entry_def summary_entry_def)
qed

lemma length_ie_element [simp]: "length (ie_element eid dat) = 2 + length dat"
  by (simp add: ie_element_def)

lemma ie_loop_elements:
  assumes "ie_valid es"
  shows "ie_loop compact crc16 po (pre @ ie_encode es @ post)
           \<lparr>ss = s, first = f, offset = length pre\<rparr> =
         ie_loop compact crc16 po (pre @ ie_encode es @ post)
           \<lparr>ss = put s (sep_entries f (ie_entries compact crc16 po (fill s) es)),
            first = (f \<and> ie_entries compact crc16 po (fill s) es = []),
            offset = length pre + length (ie_encode es)\<rparr>"
  using assms
proof (induction es arbitrary: pre s f)
  case Nil
  then show ?case by simp
next
  case (Cons e es)
  obtain eid dat where e: "e = (eid, dat)" by (cases e)
  let ?bytes = "pre @ ie_encode (e # es) @ post"
  let ?E = "ie_entries compact crc16 po (fill s) [(eid, dat)]"
  have len: "length dat < 256" and val: "ie_valid es"
    using Cons.prems by (simp_all add: ie_valid_def e)
  have bytes: "?bytes = pre @ ie_element eid dat @ (ie_encode es @ post)"
    by (simp add: e)
  have bytes': "?bytes = (pre @ ie_element eid dat) @ ie_encode es @ post"
    by (simp add: e)
  have lt: "length pre < length ?bytes"
    by (simp add: e)
  have body: "ie_body compact crc16 po ?bytes \<lparr>ss = s, first = f, offset = length pre\<rparr> =
      Inr (Continue \<lparr>ss = put s (sep_entries f ?E), first = (f \<and> ?E = []),
         offset = length pre + length (ie_element eid dat)\<rparr>)"
    unfolding bytes by (rule ie_body_element [OF len])
  have step: "ie_loop compact crc16 po ?bytes \<lparr>ss = s, first = f, offset = length pre\<rparr> =
      ie_loop compact crc16 po ?bytes
        \<lparr>ss = put s (sep_entries f ?E), first = (f \<and> ?E = []),
         offset = length pre + length (ie_element eid dat)\<rparr>"
    by (subst ie_loop.simps)
       (simp only: ie_state.select_convs lt if_True body sum.case ctl.case)
  have rest: "ie_loop compact crc16 po ?bytes
        \<lparr>ss = put s (sep_entries f ?E), first = (f \<and> ?E = []),
         offset = length pre + length (ie_element eid dat)\<rparr> =
      ie_loop compact crc16 po ?bytes
        \<lparr>ss = put (put s (sep_entries f ?E))
            (sep_entries (f \<and> ?E = []) (ie_entries compact crc16 po (fill s) es)),
         first = ((f \<and> ?E = []) \<and> ie_entries compact crc16 po (fill s) es = []),
         offset = length pre + length (ie_element eid dat) + length (ie_encode es)\<rparr>"
    using Cons.IH [OF val, of "pre @ ie_element eid dat" "put s (sep_entries f ?E)" "f \<and> ?E = []"]
    by (simp add: e)
  have ent: "ie_entries compact crc16 po (fill s) (e # es) =
      ?E @ ie_entries compact crc16 po (fill s) es"
    by (simp add: e)
  show ?case
    unfolding step rest ent sep_entries_append
    by (simp add: e conj_assoc add.assoc)
qed

lemma ie_loop_short_tail:
  assumes "length post < 2"
  shows "ie_loop compact crc16 po (pre @ post) \<lparr>ss = s, first = f, offset = length pre\<rparr> =
         Inr \<lparr>ss = s, first = f, offset = length pre\<rparr>"
  using assms
  by (subst ie_loop.simps) (simp add: ie_body_def sizeof_IEHeader_def)

lemma ie_loop_truncated:
  assumes "length rest < unat l"
  shows "ie_loop compact crc16 po (pre @ eid # l # rest) \<lparr>ss = s, first = f, offset = length pre\<rparr> =
         Inr \<lparr>ss = put s (sep_entries f [''ERR'']), first = False, offset = length pre\<rparr>"
  using assms
  by (subst ie_loop.simps)
     (simp add: ie_body_def sizeof_IEHeader_def memcpy_IEHeader_at printComma_def)

subsection \<open>Runs over well-formed elements\<close>

lemma informationElementsToStream_encode:
  assumes "ie_valid es"
    and "length post < 2 \<and> T = [] \<or> (\<exists>eid l rest. post = eid # l # rest \<and> length rest < unat l) \<and> T = [''ERR'']"
  shows "informationElementsToStream compact crc16 po s (ie_encode es @ post) =
         Inr (put s (''{'' @ ie_summary compact crc16 (fill s) (ie_encode es @ post)
                @ sep_entries True (ie_entries compact crc16 po (fill s) es @ T) @ ''}''))"
proof -
  let ?bytes = "ie_encode es @ post"
  let ?s = "ie_prologue compact crc16 s ?bytes"
  let ?E = "ie_entries compact crc16 po (fill s) es"
  have fill: "fill ?s = fill s"
    by (simp add: ie_prologue_eq)
  have run: "ie_loop compact crc16 po ?bytes (ie_init compact crc16 s ?bytes) =
      ie_loop compact crc16 po ([] @ ?bytes)
        \<lparr>ss = put ?s (sep_entries True ?E), first = (?E = []), offset = length (ie_encode es)\<rparr>"
    using ie_loop_elements [OF assms(1), of compact crc16 po "[]" post ?s True]
    by (simp add: ie_init_def fill)
  from assms(2) show ?thesis
  proof (elim disjE conjE exE)
    assume "length post < 2" "T = []"
    then show ?thesis
      using ie_loop_short_tail [of post compact crc16 po "ie_encode es" "put ?s (sep_entries True ?E)" "?E = []"]
      unfolding informationElementsToStream_def run
      by (simp add: ie_prologue_eq)
  next
    fix eid l rest
    assume "post = eid # l # rest" "length rest < unat l" "T = [''ERR'']"
    then show ?thesis
      using ie_loop_truncated [of rest l compact crc16 po "ie_encode es" eid "put ?s (sep_entries True ?E)" "?E = []"]
      unfolding informationElementsToStream_def run
      by (simp add: ie_prologue_eq sep_entries_append)
  qed
qed

lemma ie_entries_compact:
  "ie_entries True crc16 po c es = map (ssid_entry po) (ssid_payloads es)"
  by (induction es) (simp_all add: ssid_payloads_def)

lemma ie_entries_full:
  "ie_entries False crc16 po c es = map (full_entry crc16 po c) es"
  by (induction es) (simp_all add: full_entry_def)

lemma test_chars:
  "byte_to_char 0x74 = CHR ''t''" "byte_to_char 0x65 = CHR ''e''" "byte_to_char 0x73 = CHR ''s''"
  by code_simp+

subsection \<open>The trace of offsets\<close>

lemma ie_offsets_length:
  "length (ie_offsets compact crc16 po bytes st) \<le> (length bytes - offset st + 1) div 2"
proof (induction compact crc16 po bytes st rule: ie_offsets.induct)
  case (1 compact crc16 po bytes st)
  show ?case
  proof (cases "offset st < length bytes")
    case False
    then show ?thesis by (simp add: ie_offsets.simps [of compact crc16 po bytes st])
  next
    case True
    show ?thesis
    proof (cases "ie_body compact crc16 po bytes st")
      case (Inl e)
      then show ?thesis
        using True by (simp add: ie_offsets.simps [of compact crc16 po bytes st])
    next
      case (Inr r)
      show ?thesis
      proof (cases r)
        case (Break st')
        then show ?thesis
          using True Inr by (simp add: ie_offsets.simps [of compact crc16 po bytes st])
      next
        case (Continue st')
        have "length (ie_offsets compact crc16 po bytes st')
            \<le> (length bytes - offset st' + 1) div 2"
          using 1 True Inr Continue by simp
        moreover have "offset st' = offset st + 2 + unat (bytes ! (offset st + 1))"
          "offset st' \<le> length bytes"
          using ie_body_Continue Inr Continue by blast+
        ultimately show ?thesis
          using True Inr Continue
          by (simp add: ie_offsets.simps [of compact crc16 po bytes st])
      qed
    qed
  qed
qed

lemma ie_offsets_hd:
  "ie_offsets compact crc16 po bytes st \<noteq> [] \<Longrightarrow>
   hd (ie_offsets compact crc16 po bytes st) = offset st"
  by (subst (asm) ie_offsets.simps, subst ie_offsets.simps) (simp split: if_splits)

lemma ie_offsets_successively:
  "successively (\<lambda>a b. b = a + 2 + unat (bytes ! (a + 1)) \<and> b \<le> length bytes)
     (ie_offsets compact crc16 po bytes st)"
proof (induction compact crc16 po bytes st rule: ie_offsets.induct)
  case (1 compact crc16 po bytes st)
  show ?case
  proof (cases "offset st < length bytes")
    case False
    then show ?thesis by (simp add: ie_offsets.simps [of compact crc16 po bytes st])
  next
    case True
    show ?thesis
    proof (cases "ie_body compact crc16 po bytes st")
      case (Inl e)
      then show ?thesis
        using True by (simp add: ie_offsets.simps [of compact crc16 po bytes st])
    next
      case (Inr r)
      show ?thesis
      proof (cases r)
        case (Break st')
        then show ?thesis
          using True Inr by (simp add: ie_offsets.simps [of compact crc16 po bytes st])
      next
        case (Continue st')
        have ih: "successively (\<lambda>a b. b = a + 2 + unat (bytes ! (a + 1)) \<and> b \<le> length bytes)
            (ie_offsets compact crc16 po bytes st')"
          using 1 True Inr Continue by simp
        have off: "offset st' = offset st + 2 + unat (bytes ! (offset st + 1))"
          "offset st' \<le> length bytes"
          using ie_body_Continue Inr Continue by blast+
        have unf: "ie_offsets compact crc16 po bytes st =
            offset st # ie_offsets compact crc16 po bytes st'"
          using True Inr Continue by (simp add: ie_offsets.simps [of compact crc16 po bytes st])
        show ?thesis
          unfolding unf successively_Cons
          using ih off ie_offsets_hd [of compact crc16 po bytes st'] by auto
      qed
    qed
  qed
qed

lemma successively_nth:
  "successively P xs \<Longrightarrow> Suc i < length xs \<Longrightarrow> P (xs ! i) (xs ! Suc i)"
proof (induction P xs arbitrary: i rule: successively.induct)
  case (3 P x y xs)
  then show ?case by (cases i) auto
qed auto

subsection \<open>What the loop appends\<close>

lemma plain_ends_Nil [simp]: "plain_ends []"
  by (simp add: plain_ends_def)

lemma plain_ends_append: "plain_ends a \<Longrightarrow> plain_ends b \<Longrightarrow> plain_ends (a @ b)"
  by (cases a; cases b rule: rev_cases) (auto simp: plain_ends_def)

lemma plain_ends_wrap:
  "c \<noteq> CHR ''{'' \<Longrightarrow> d \<noteq> CHR ''}'' \<Longrightarrow> plain_ends (c # t @ [d])"
  by (simp add: plain_ends_def)

lemma digit_char_plain:
  assumes "d < 16"
  shows "digit_char d \<noteq> CHR ''{''" and "digit_char d \<noteq> CHR ''}''"
proof -
  have "digit_char d \<in> set ''0123456789abcdef''"
    unfolding digit_char_def using assms by (intro nth_mem) simp
  then show "digit_char d \<noteq> CHR ''{''" and "digit_char d \<noteq> CHR ''}''"
    by auto
qed

lemma show_dec_hd: "\<exists>c cs. show_dec n = c # cs \<and> c \<noteq> CHR ''{''"
proof (induction n rule: show_dec.induct)
  case (1 n)
  show ?case
  proof (cases "n < 10")
    case True
    then show ?thesis
      using digit_char_plain(1) [of n] by (simp add: show_dec.simps [of n])
  next
    case False
    with 1 obtain c cs where "show_dec (n div 10) = c # cs" "c \<noteq> CHR ''{''"
      by auto
    with False show ?thesis
      by (simp add: show_dec.simps [of n])
  qed
qed

lemma show_hex_last: "\<exists>cs d. show_hex n = cs @ [d] \<and> d \<noteq> CHR ''}''"
proof (cases "n < 16")
  case True
  then show ?thesis
    using digit_char_plain(2) [of n] by (simp add: show_hex.simps [of n])
next
  case False
  have "n mod 16 < 16" by simp
  then show ?thesis
    using False digit_char_plain(2) [of "n mod 16"] by (simp add: show_hex.simps [of n])
qed

lemma hex4_last: "\<exists>cs d. hex4 c v = cs @ [d] \<and> d \<noteq> CHR ''}''"
proof -
  obtain cs d where "show_hex (unat v) = cs @ [d]" "d \<noteq> CHR ''}''"
    using show_hex_last by blast
  then have "hex4 c v = (replicate (4 - length (cs @ [d])) c @ cs) @ [d]"
    by (simp add: hex4_def setw_def)
  with \<open>d \<noteq> CHR ''}''\<close> show ?thesis by blast
qed

lemma plain_ends_summary_entry:
  "plain_ends (show_dec a @ '':'' @ show_dec b @ ''/'' @ hex4 c v)"
proof -
  obtain x xs where x: "show_dec a = x # xs" "x \<noteq> CHR ''{''"
    using show_dec_hd by blast
  obtain ys d where d: "hex4 c v = ys @ [d]" "d \<noteq> CHR ''}''"
    using hex4_last by blast
  have "plain_ends (x # (xs @ '':'' @ show_dec b @ ''/'' @ ys) @ [d])"
    by (rule plain_ends_wrap [OF x(2) d(2)])
  then show ?thesis
    by (simp add: x d)
qed

lemma plain_ends_sep: "plain_ends t \<Longrightarrow> plain_ends ((if f then [] else '', '') @ t)"
  by (rule plain_ends_append) (simp_all add: plain_ends_def)

lemma ex_put: "plain_ends t \<Longrightarrow> \<exists>t'. put s t = put s t' \<and> plain_ends t'"
  by blast

lemma ie_body_appends:
  assumes "ie_body compact crc16 po bytes st = Inr r"
    and "r = Continue st' \<or> r = Break st'"
  shows "\<exists>t. ss st' = put (ss st) t \<and> plain_ends t"
proof -
  have sep: "ss (printComma u) = put (ss u) (if first u then [] else '', '')" for u
    by (simp add: printComma_def)
  have err: "plain_ends ((if f then [] else '', '') @ ''ERR'')" for f
    by (rule plain_ends_sep) (simp add: plain_ends_def)
  have ssid: \<open>plain_ends ((if f then [] else '', '') @ ''SSID="'' @ x @ ''"'')\<close> for f x
    by (rule plain_ends_sep) (simp add: plain_ends_def)
  have summ: "plain_ends ((if f then [] else '', '') @ show_dec a @ '':'' @ show_dec b @ ''/'' @ hex4 c v)"
    for f a b c v
    by (rule plain_ends_sep) (rule plain_ends_summary_entry)
  note plain = err [of True, simplified] err [of False, simplified]
    ssid [of True, simplified] ssid [of False, simplified]
    summ [of True, simplified] summ [of False, simplified]
  have nil: "\<exists>t. ss st = put (ss st) t \<and> plain_ends t"
    by (rule exI [of _ "[]"]) simp
  show ?thesis
    using assms nil
    by (auto simp: ie_body_def Let_def sep put_dec_eq put_hex4_eq
          split: sum.splits if_splits intro!: ex_put plain)
qed

lemma ie_loop_appends:
  "\<exists>st' t. ie_loop compact crc16 po bytes st = Inr st' \<and> ss st' = put (ss st) t \<and> plain_ends t"
proof (induction compact crc16 po bytes st rule: ie_loop.induct)
  case (1 compact crc16 po bytes st)
  have nil: "ss st = put (ss st) [] \<and> plain_ends []"
    by simp
  show ?case
  proof (cases "offset st < length bytes")
    case False
    then have "ie_loop compact crc16 po bytes st = Inr st"
      by (simp add: ie_loop.simps [of compact crc16 po bytes st])
    with nil show ?thesis by blast
  next
    case True
    show ?thesis
    proof (cases "ie_body compact crc16 po bytes st")
      case (Inl e)
      then show ?thesis using ie_body_no_fault by blast
    next
      case (Inr r)
      show ?thesis
      proof (cases r)
        case (Break st')
        then show ?thesis
          using True Inr ie_body_appends [OF Inr, of st']
          by (simp add: ie_loop.simps [of compact crc16 po bytes st])
      next
        case (Continue st1)
        obtain t1 where t1: "ss st1 = put (ss st) t1" "plain_ends t1"
          using ie_body_appends [OF Inr, of st1] Continue by blast
        obtain st' t2 where t2: "ie_loop compact crc16 po bytes st1 = Inr st'"
          "ss st' = put (ss st1) t2" "plain_ends t2"
          using 1 True Inr Continue by blast
        have "ie_loop compact crc16 po bytes st = Inr st'"
          using True Inr Continue t2(1) by (simp add: ie_loop.simps [of compact crc16 po bytes st])
        moreover have "ss st' = put (ss st) (t1 @ t2)"
          using t1(1) t2(2) by simp
        moreover have "plain_ends (t1 @ t2)"
          using t1(2) t2(3) by (rule plain_ends_append)
        ultimately show ?thesis by blast
      qed
    qed
  qed
qed

subsection \<open>Concrete runs\<close>

lemma funpow_8: "(f ^^ 8) x = f (f (f (f (f (f (f (f x)))))))"
  by (simp add: numeral_eq_Suc)

lemmas crc16_model_simps = crc16_model_def crc16_byte_def crc16_bit_def funpow_8

lemmas hex4_simps = hex4_def setw_def show_hex.simps digit_char_def

lemmas text_simps = put_def ss0_def show_dec.simps
  digit_char_def ssid_entry_def summary_entry_def full_entry_def ssid_payloads_def
  printableOnly_model_def isprint_def test_chars WLAN_EID_SSID_def ie_element_def
  ie_summary_def kCompactIE_def

section \<open>The claims\<close>

text \<open>
  C1. Whatever the payload holds, no read of the formatter leaves it: the header is read
  only after the check that two bytes remain, the element payload only after the check
  that the declared length fits, so the fault value never arises and the formatter
  returns a stream.
\<close>

theorem informationElementsToStream_in_bounds:
  "\<exists>s'. informationElementsToStream compact crc16 printableOnly s bytes = Inr s'"
proof (cases "ie_loop compact crc16 printableOnly bytes (ie_init compact crc16 s bytes)")
  case (Inl e)
  then show ?thesis using ie_loop_no_fault by blast
next
  case (Inr st)
  then show ?thesis by (simp add: informationElementsToStream_def)
qed

text \<open>
  C2 as stated does not hold. In compact mode, which is the compiled configuration, an
  element whose identifier is not the SSID one gets no entry of its own: for the payload
  of one element with identifier 1 and the one payload byte \<open>0x33\<close> the group holds the
  length and checksum of the whole payload and nothing else. The entry with identifier,
  length and checksum appears with compact mode off.
\<close>

theorem informationElementsToStream_compact_counterexample:
  "informationElementsToStream kCompactIE crc16_model printableOnly_model ss0 [1, 1, 0x33] =
     Inr \<lparr>contents = ''{len=3, crc=4510, }'', fill = CHR ''0''\<rparr>
   \<and> informationElementsToStream False crc16_model printableOnly_model ss0 [1, 1, 0x33] =
     Inr \<lparr>contents = ''{1:1/1540}'', fill = CHR ''0''\<rparr>"
proof -
  have v: "ie_valid [(1, [0x33])]"
    by (simp add: ie_valid_def)
  have c: "hex4 (CHR ''0'') (crc16_model [1, 1, 0x33]) = ''4510''" "hex4 (CHR ''0'') (crc16_model [0x33]) = ''1540''"
    by (simp_all add: crc16_model_simps hex4_simps)
  show ?thesis
    using informationElementsToStream_encode [OF v, of "[]" "[]" True crc16_model printableOnly_model ss0]
      informationElementsToStream_encode [OF v, of "[]" "[]" False crc16_model printableOnly_model ss0]
    by (simp add: text_simps c)
qed

text \<open>
  C2, as amended. For a payload of well-formed elements: in compact mode the group holds
  the length and checksum of the whole payload and, of the elements, only the SSID ones,
  each as sanitized text in quotes; an element with another identifier leaves no entry
  of its own. With compact mode off every element has its entry, the SSID ones as text
  and the others as identifier, length and checksum.
\<close>

theorem informationElementsToStream_modes:
  assumes "ie_valid es"
  shows "informationElementsToStream True crc16 printableOnly s (ie_encode es) =
           Inr (put s (''{len='' @ show_dec (length (ie_encode es)) @ '', crc=''
                  @ hex4 (fill s) (crc16 (ie_encode es)) @ '', ''
                  @ sep_entries True (map (ssid_entry printableOnly) (ssid_payloads es))
                  @ ''}''))
       \<and> informationElementsToStream False crc16 printableOnly s (ie_encode es) =
           Inr (put s (''{''
                  @ sep_entries True (map (full_entry crc16 printableOnly (fill s)) es)
                  @ ''}''))"
  using informationElementsToStream_encode [OF assms, of "[]" "[]" True crc16 printableOnly s]
    informationElementsToStream_encode [OF assms, of "[]" "[]" False crc16 printableOnly s]
  by (simp add: ie_entries_compact ie_entries_full ie_summary_def)

text \<open>
  The amended C2 on an SSID element followed by an element with identifier 1.
\<close>

theorem informationElementsToStream_modes_witness:
  \<open>ie_valid [(WLAN_EID_SSID, [0x74, 0x65, 0x73, 0x74]), (1, [0x33])]
   \<and> informationElementsToStream True crc16_model printableOnly_model ss0
       [0, 4, 0x74, 0x65, 0x73, 0x74, 1, 1, 0x33] =
     Inr \<lparr>contents = ''{len=9, crc=7f32, SSID="test"}'', fill = CHR ''0''\<rparr>
   \<and> informationElementsToStream False crc16_model printableOnly_model ss0
       [0, 4, 0x74, 0x65, 0x73, 0x74, 1, 1, 0x33] =
     Inr \<lparr>contents = ''{SSID="test", 1:1/1540}'', fill = CHR ''0''\<rparr>\<close>
proof -
  have v: "ie_valid [(WLAN_EID_SSID, [0x74, 0x65, 0x73, 0x74]), (1, [0x33])]"
    by (simp add: ie_valid_def)
  have c: "hex4 (CHR ''0'') (crc16_model [0, 4, 0x74, 0x65, 0x73, 0x74, 1, 1, 0x33]) = ''7f32''"
    "hex4 (CHR ''0'') (crc16_model [0x33]) = ''1540''"
    by (simp_all add: crc16_model_simps hex4_simps)
  show ?thesis
    using v informationElementsToStream_modes [OF v, of crc16_model printableOnly_model ss0]
    by (simp add: text_simps c)
qed

text \<open>
  C3. When, after a run of well-formed elements, a header declares more payload than
  remains, the formatter returns: the entries of the elements before that point are in
  the output as they are when the payload ends there, \<open>ERR\<close> follows them as the
  last entry, nothing of the remaining bytes is rendered, and the group is closed.
\<close>

theorem informationElementsToStream_truncated:
  assumes "ie_valid es" and "length rest < unat l"
  shows "informationElementsToStream compact crc16 printableOnly s (ie_encode es @ eid # l # rest) =
           Inr (put s (''{''
                  @ ie_summary compact crc16 (fill s) (ie_encode es @ eid # l # rest)
                  @ sep_entries True (ie_entries compact crc16 printableOnly (fill s) es @ [''ERR''])
                  @ ''}''))
       \<and> informationElementsToStream compact crc16 printableOnly s (ie_encode es) =
           Inr (put s (''{''
                  @ ie_summary compact crc16 (fill s) (ie_encode es)
                  @ sep_entries True (ie_entries compact crc16 printableOnly (fill s) es)
                  @ ''}''))"
  using informationElementsToStream_encode [OF assms(1), of "eid # l # rest" "[''ERR'']"
      compact crc16 printableOnly s]
    informationElementsToStream_encode [OF assms(1), of "[]" "[]" compact crc16 printableOnly s]
    assms(2)
  by simp

text \<open>
  C3 on an SSID element followed by a header that declares nine bytes where one is left.
\<close>

theorem informationElementsToStream_truncated_witness:
  \<open>ie_valid [(WLAN_EID_SSID, [0x74, 0x65, 0x73, 0x74])] \<and> length [1 :: byte] < unat (9 :: byte)
   \<and> informationElementsToStream kCompactIE crc16_model printableOnly_model ss0
       [0, 4, 0x74, 0x65, 0x73, 0x74, 7, 9, 1] =
     Inr \<lparr>contents = ''{len=9, crc=6b54, SSID="test", ERR}'', fill = CHR ''0''\<rparr>
   \<and> informationElementsToStream kCompactIE crc16_model printableOnly_model ss0
       [0, 4, 0x74, 0x65, 0x73, 0x74] =
     Inr \<lparr>contents = ''{len=6, crc=38df, SSID="test"}'', fill = CHR ''0''\<rparr>\<close>
proof -
  have v: "ie_valid [(WLAN_EID_SSID, [0x74, 0x65, 0x73, 0x74])]"
    by (simp add: ie_valid_def)
  have t: "length [1 :: byte] < unat (9 :: byte)"
    by simp
  have c: "hex4 (CHR ''0'') (crc16_model [0, 4, 0x74, 0x65, 0x73, 0x74, 7, 9, 1]) = ''6b54''"
    "hex4 (CHR ''0'') (crc16_model [0, 4, 0x74, 0x65, 0x73, 0x74]) = ''38df''"
    by (simp_all add: crc16_model_simps hex4_simps)
  show ?thesis
    using v t
      informationElementsToStream_truncated [OF v t, of kCompactIE crc16_model printableOnly_model ss0 7]
    by (simp add: text_simps c)
qed

text \<open>
  C4. A payload of one element with identifier \<open>WLAN_EID_SSID\<close>, length 4 and the
  bytes of \<open>test\<close> gives a group whose only element entry is that text in quotes
  after \<open>SSID=\<close>, for every sanitizer that leaves this printable text as it is.
\<close>

theorem informationElementsToStream_ssid_test:
  assumes "printableOnly ''test'' = ''test''"
  shows \<open>informationElementsToStream compact crc16 printableOnly s
           [WLAN_EID_SSID, 4, 0x74, 0x65, 0x73, 0x74] =
         Inr (put s (''{''
                @ ie_summary compact crc16 (fill s) [WLAN_EID_SSID, 4, 0x74, 0x65, 0x73, 0x74]
                @ ''SSID="test"'' @ ''}''))\<close>
proof -
  have v: "ie_valid [(WLAN_EID_SSID, [0x74, 0x65, 0x73, 0x74])]"
    by (simp add: ie_valid_def)
  show ?thesis
    using informationElementsToStream_encode [OF v, of "[]" "[]" compact crc16 printableOnly s]
      assms
    by (simp add: ie_element_def ssid_entry_def test_chars)
qed

text \<open>
  C4 in the compiled configuration, with the stand-ins for the two helpers.
\<close>

theorem informationElementsToStream_ssid_test_witness:
  \<open>printableOnly_model ''test'' = ''test''
   \<and> informationElementsToStream kCompactIE crc16_model printableOnly_model ss0
       [0, 4, 0x74, 0x65, 0x73, 0x74] =
     Inr \<lparr>contents = ''{len=6, crc=38df, SSID="test"}'', fill = CHR ''0''\<rparr>\<close>
proof -
  have p: "printableOnly_model ''test'' = ''test''"
    by (simp add: printableOnly_model_def isprint_def)
  have c: "hex4 (CHR ''0'') (crc16_model [0, 4, 0x74, 0x65, 0x73, 0x74]) = ''38df''"
    by (simp add: crc16_model_simps hex4_simps)
  show ?thesis
    using p informationElementsToStream_ssid_test
        [where printableOnly = printableOnly_model and compact = kCompactIE
           and ?crc16.0 = crc16_model and s = ss0, OF p]
    by (simp add: text_simps c)
qed

text \<open>
  C5. When fewer bytes than a header remain after a run of well-formed elements, the
  loop stops without a trace: the output holds the entries of those elements and the
  closing brace, no \<open>ERR\<close> and nothing for the leftover byte.
\<close>

theorem informationElementsToStream_dangling:
  assumes "ie_valid es" and "length post < sizeof_IEHeader"
  shows "informationElementsToStream compact crc16 printableOnly s (ie_encode es @ post) =
           Inr (put s (''{''
                  @ ie_summary compact crc16 (fill s) (ie_encode es @ post)
                  @ sep_entries True (ie_entries compact crc16 printableOnly (fill s) es)
                  @ ''}''))"
  using informationElementsToStream_encode [OF assms(1), of post "[]" compact crc16 printableOnly s]
    assms(2)
  by (simp add: sizeof_IEHeader_def)

text \<open>
  C5 on an SSID element followed by one stray byte.
\<close>

theorem informationElementsToStream_dangling_witness:
  \<open>ie_valid [(WLAN_EID_SSID, [0x74, 0x65, 0x73, 0x74])] \<and> length [7 :: byte] < sizeof_IEHeader
   \<and> informationElementsToStream kCompactIE crc16_model printableOnly_model ss0
       [0, 4, 0x74, 0x65, 0x73, 0x74, 7] =
     Inr \<lparr>contents = ''{len=7, crc=5a38, SSID="test"}'', fill = CHR ''0''\<rparr>\<close>
proof -
  have v: "ie_valid [(WLAN_EID_SSID, [0x74, 0x65, 0x73, 0x74])]"
    by (simp add: ie_valid_def)
  have t: "length [7 :: byte] < sizeof_IEHeader"
    by (simp add: sizeof_IEHeader_def)
  have c: "hex4 (CHR ''0'') (crc16_model [0, 4, 0x74, 0x65, 0x73, 0x74, 7]) = ''5a38''"
    by (simp add: crc16_model_simps hex4_simps)
  show ?thesis
    using v t
      informationElementsToStream_dangling [OF v t, of kCompactIE crc16_model printableOnly_model ss0]
    by (simp add: text_simps c)
qed

text \<open>
  C6. A payload shorter than the struct gives the text \<open>invalid structure\<close> and
  nothing else, whatever its bytes are; a payload of at least that length gives the four
  fields in the order \<open>max_patterns\<close>, \<open>min_pattern_len\<close>, \<open>max_pattern_len\<close>,
  \<open>max_pkt_offset\<close>, in decimal, separated by commas, inside braces.
\<close>

theorem nl80211_pattern_supportToStream_cases:
  "(length bytes < sizeof_nl80211_pattern_support \<longrightarrow>
      nl80211_pattern_supportToStream u32 s bytes = put s ''invalid structure'')
   \<and> (sizeof_nl80211_pattern_support \<le> length bytes \<longrightarrow>
      nl80211_pattern_supportToStream u32 s bytes =
        put s (''{'' @ show_dec (unat (u32 (take 4 bytes)))
          @ '','' @ show_dec (unat (u32 (take 4 (drop 4 bytes))))
          @ '','' @ show_dec (unat (u32 (take 4 (drop 8 bytes))))
          @ '','' @ show_dec (unat (u32 (take 4 (drop 12 bytes))))
          @ ''}''))"
  by (simp add: nl80211_pattern_supportToStream_def getFirst_def put_dec_eq)

text \<open>
  C6 on a payload of three bytes and on one of sixteen, read in little-endian order.
\<close>

theorem nl80211_pattern_supportToStream_cases_witness:
  "length [1, 0, 0 :: byte] < sizeof_nl80211_pattern_support
   \<and> nl80211_pattern_supportToStream u32_le ss0 [1, 0, 0] =
       \<lparr>contents = ''invalid structure'', fill = CHR ''0''\<rparr>
   \<and> sizeof_nl80211_pattern_support \<le> length [1, 0, 0, 0, 2, 0, 0, 0, 3, 0, 0, 0, 0, 1, 0, 0 :: byte]
   \<and> nl80211_pattern_supportToStream u32_le ss0 [1, 0, 0, 0, 2, 0, 0, 0, 3, 0, 0, 0, 0, 1, 0, 0] =
       \<lparr>contents = ''{1,2,3,256}'', fill = CHR ''0''\<rparr>"
  using nl80211_pattern_supportToStream_cases [of "[1, 0, 0]" u32_le ss0]
    nl80211_pattern_supportToStream_cases
      [of "[1, 0, 0, 0, 2, 0, 0, 0, 3, 0, 0, 0, 0, 1, 0, 0]" u32_le ss0]
  by (simp add: sizeof_nl80211_pattern_support_def u32_le_def put_def ss0_def
      show_dec.simps digit_char_def)

text \<open>
  C7 as stated does not hold in its bound: on a payload of one byte the loop runs once
  (the body is entered and breaks on the header check), which is more than half the
  payload length.
\<close>

theorem ie_offsets_bound_counterexample:
  "\<not> 2 * length (ie_offsets kCompactIE crc16_model printableOnly_model [7]
                   (ie_init kCompactIE crc16_model ss0 [7])) \<le> length [7 :: byte]"
  by (simp add: ie_offsets.simps ie_init_def ie_body_def sizeof_IEHeader_def)

text \<open>
  C7, as amended. The formatter returns on every payload. An iteration that does not
  break advances the offset by the header size plus the declared length, so by at least
  two and never beyond the end, and the number of iterations, the breaking one included,
  is at most half the payload length rounded up.
\<close>

theorem ie_offsets_bound:
  assumes "offs = ie_offsets compact crc16 printableOnly bytes (ie_init compact crc16 s bytes)"
  shows "length offs \<le> (length bytes + 1) div 2
       \<and> (\<forall>i. Suc i < length offs \<longrightarrow>
            offs ! i + sizeof_IEHeader \<le> offs ! Suc i \<and> offs ! Suc i \<le> length bytes)
       \<and> (\<exists>s'. informationElementsToStream compact crc16 printableOnly s bytes = Inr s')"
proof (intro conjI allI impI)
  show "length offs \<le> (length bytes + 1) div 2"
    unfolding assms
    using ie_offsets_length [of compact crc16 printableOnly bytes "ie_init compact crc16 s bytes"]
    by (simp add: ie_init_def)
next
  fix i
  assume "Suc i < length offs"
  then have "offs ! Suc i = offs ! i + 2 + unat (bytes ! (offs ! i + 1))
      \<and> offs ! Suc i \<le> length bytes"
    unfolding assms by (rule successively_nth [OF ie_offsets_successively])
  then show "offs ! i + sizeof_IEHeader \<le> offs ! Suc i" and "offs ! Suc i \<le> length bytes"
    by (simp_all add: sizeof_IEHeader_def)
next
  show "\<exists>s'. informationElementsToStream compact crc16 printableOnly s bytes = Inr s'"
  proof (cases "ie_loop compact crc16 printableOnly bytes (ie_init compact crc16 s bytes)")
    case (Inl e)
    then show ?thesis using ie_loop_no_fault by blast
  next
    case (Inr st)
    then show ?thesis by (simp add: informationElementsToStream_def)
  qed
qed

text \<open>
  The amended C7 on two elements followed by one stray byte: three iterations for six
  bytes.
\<close>

theorem ie_offsets_bound_witness:
  "[0, 3, 5] = ie_offsets kCompactIE crc16_model printableOnly_model [1, 1, 0x33, 2, 0, 7]
       (ie_init kCompactIE crc16_model ss0 [1, 1, 0x33, 2, 0, 7])
   \<and> length [0, 3, 5 :: nat] \<le> (length [1, 1, 0x33, 2, 0, 7 :: byte] + 1) div 2
   \<and> [0, 3, 5] ! 0 + sizeof_IEHeader \<le> [0, 3, 5] ! Suc 0
   \<and> [0, 3, 5] ! Suc 0 + sizeof_IEHeader \<le> [0, 3, 5] ! Suc (Suc 0)
   \<and> (\<exists>s'. informationElementsToStream kCompactIE crc16_model printableOnly_model ss0
               [1, 1, 0x33, 2, 0, 7] = Inr s')"
proof -
  have tr: "[0, 3, 5] = ie_offsets kCompactIE crc16_model printableOnly_model
       [1, 1, 0x33, 2, 0, 7] (ie_init kCompactIE crc16_model ss0 [1, 1, 0x33, 2, 0, 7])"
    by (simp add: ie_offsets.simps ie_init_def ie_body_def sizeof_IEHeader_def
        memcpy_IEHeader_def read_bytes_def kCompactIE_def WLAN_EID_SSID_def printComma_def
        Let_def)
  have "Suc 0 < length [0, 3, 5 :: nat]" "Suc (Suc 0) < length [0, 3, 5 :: nat]"
    by simp_all
  with ie_offsets_bound [OF tr] tr show ?thesis
    by blast
qed

text \<open>
  C8 as stated does not hold in the compiled configuration: for the empty payload the
  group is not empty, it holds the length and the checksum of the payload, and a
  separator stands before the closing brace.
\<close>

theorem informationElementsToStream_empty_counterexample:
  "informationElementsToStream kCompactIE crc16_model printableOnly_model ss0 [] =
     Inr \<lparr>contents = ''{len=0, crc=0000, }'', fill = CHR ''0''\<rparr>"
proof -
  have v: "ie_valid []"
    by (simp add: ie_valid_def)
  have c: "hex4 (CHR ''0'') (crc16_model []) = ''0000''"
    by (simp add: crc16_model_def hex4_simps numeral_3_eq_3)
  show ?thesis
    using informationElementsToStream_encode [OF v, of "[]" "[]" kCompactIE crc16_model printableOnly_model ss0]
    by (simp add: text_simps c)
qed

text \<open>
  C8, as amended. For the empty payload the formatter returns a closed group with no
  element entry: \<open>{}\<close> with compact mode off, and in compact mode the summary
  \<open>len=0\<close> and the checksum of the empty payload, each followed by the separator.
  Between two element entries there is one separator, and none after the last.
\<close>

theorem informationElementsToStream_empty:
  "informationElementsToStream compact crc16 printableOnly s [] =
     Inr (put s (''{''
            @ (if compact then ''len=0, crc='' @ hex4 (fill s) (crc16 []) @ '', '' else [])
            @ ''}''))
   \<and> (length d1 < 256 \<and> length d2 < 256 \<longrightarrow>
        informationElementsToStream False crc16 printableOnly s
          (ie_encode [(WLAN_EID_SSID, d1), (WLAN_EID_SSID, d2)]) =
        Inr (put s (''{'' @ ssid_entry printableOnly d1 @ '', '' @ ssid_entry printableOnly d2
               @ ''}'')))"
proof -
  have v0: "ie_valid []" by (simp add: ie_valid_def)
  have "show_dec 0 = ''0''" by (simp add: show_dec.simps digit_char_def)
  then have a: "informationElementsToStream compact crc16 printableOnly s [] =
     Inr (put s (''{''
            @ (if compact then ''len=0, crc='' @ hex4 (fill s) (crc16 []) @ '', '' else [])
            @ ''}''))"
    using informationElementsToStream_encode [OF v0, of "[]" "[]" compact crc16 printableOnly s]
    by (simp add: ie_summary_def)
  have b: "informationElementsToStream False crc16 printableOnly s
          (ie_encode [(WLAN_EID_SSID, d1), (WLAN_EID_SSID, d2)]) =
        Inr (put s (''{'' @ ssid_entry printableOnly d1 @ '', '' @ ssid_entry printableOnly d2
               @ ''}''))" if "length d1 < 256" "length d2 < 256"
  proof -
    have v: "ie_valid [(WLAN_EID_SSID, d1), (WLAN_EID_SSID, d2)]"
      using that by (simp add: ie_valid_def)
    show ?thesis
      using informationElementsToStream_encode [OF v, of "[]" "[]" False crc16 printableOnly s]
      by (simp add: ie_summary_def)
  qed
  from a b show ?thesis by blast
qed

text \<open>
  The amended C8 with compact mode off: the empty payload, and two SSID elements.
\<close>

theorem informationElementsToStream_empty_witness:
  \<open>length [0x61 :: byte] < 256 \<and> length [0x62 :: byte] < 256
   \<and> informationElementsToStream False crc16_model printableOnly_model ss0 [] =
     Inr \<lparr>contents = ''{}'', fill = CHR ''0''\<rparr>
   \<and> informationElementsToStream False crc16_model printableOnly_model ss0
       [0, 1, 0x61, 0, 1, 0x62] =
     Inr \<lparr>contents = ''{SSID="a", SSID="b"}'', fill = CHR ''0''\<rparr>\<close>
proof -
  have ch: "byte_to_char 0x61 = CHR ''a''" "byte_to_char 0x62 = CHR ''b''"
    by code_simp+
  show ?thesis
    using informationElementsToStream_empty [of False crc16_model printableOnly_model ss0
        "[0x61]" "[0x62]"]
    by (simp add: text_simps ch)
qed

text \<open>
  C9. The header is two bytes, the identifier and then the length, and elements follow
  each other without padding: the first iteration starts at offset 0, and an iteration
  that is followed by another one is followed at its own offset plus two plus the value
  of the byte after its identifier, which is within the payload.
\<close>

theorem ie_offsets_packed:
  assumes "offs = ie_offsets compact crc16 printableOnly bytes (ie_init compact crc16 s bytes)"
  shows "(offs \<noteq> [] \<longrightarrow> hd offs = 0)
       \<and> (\<forall>i. Suc i < length offs \<longrightarrow>
            offs ! Suc i = offs ! i + sizeof_IEHeader + unat (bytes ! (offs ! i + 1))
            \<and> offs ! Suc i \<le> length bytes)"
proof (intro conjI allI impI)
  assume "offs \<noteq> []"
  then show "hd offs = 0"
    unfolding assms
    using ie_offsets_hd [of compact crc16 printableOnly bytes "ie_init compact crc16 s bytes"]
    by (simp add: ie_init_def)
next
  fix i
  assume "Suc i < length offs"
  then have "offs ! Suc i = offs ! i + 2 + unat (bytes ! (offs ! i + 1))
      \<and> offs ! Suc i \<le> length bytes"
    unfolding assms by (rule successively_nth [OF ie_offsets_successively])
  then show "offs ! Suc i = offs ! i + sizeof_IEHeader + unat (bytes ! (offs ! i + 1))"
    and "offs ! Suc i \<le> length bytes"
    by (simp_all add: sizeof_IEHeader_def)
qed

text \<open>
  C9 on an element of four payload bytes, one of one byte and a stray byte: the
  iterations start at 0, then at \<open>0 + 2 + 4\<close>, then at \<open>6 + 2 + 1\<close>.
\<close>

theorem ie_offsets_packed_witness:
  "[0, 6, 9] = ie_offsets kCompactIE crc16_model printableOnly_model
       [0, 4, 0x74, 0x65, 0x73, 0x74, 1, 1, 0x33, 7]
       (ie_init kCompactIE crc16_model ss0 [0, 4, 0x74, 0x65, 0x73, 0x74, 1, 1, 0x33, 7])
   \<and> hd [0, 6, 9 :: nat] = 0
   \<and> [0, 6, 9] ! Suc 0 = [0, 6, 9] ! 0 + sizeof_IEHeader
         + unat ([0, 4, 0x74, 0x65, 0x73, 0x74, 1, 1, 0x33, 7 :: byte] ! ([0, 6, 9] ! 0 + 1))
   \<and> [0, 6, 9] ! Suc (Suc 0) = [0, 6, 9] ! Suc 0 + sizeof_IEHeader
         + unat ([0, 4, 0x74, 0x65, 0x73, 0x74, 1, 1, 0x33, 7 :: byte] ! ([0, 6, 9] ! Suc 0 + 1))"
proof -
  have tr: "[0, 6, 9] = ie_offsets kCompactIE crc16_model printableOnly_model
       [0, 4, 0x74, 0x65, 0x73, 0x74, 1, 1, 0x33, 7]
       (ie_init kCompactIE crc16_model ss0 [0, 4, 0x74, 0x65, 0x73, 0x74, 1, 1, 0x33, 7])"
    by (simp add: ie_offsets.simps ie_init_def ie_body_def sizeof_IEHeader_def
        memcpy_IEHeader_def read_bytes_def kCompactIE_def WLAN_EID_SSID_def printComma_def
        Let_def)
  have "Suc 0 < length [0, 6, 9 :: nat]" "Suc (Suc 0) < length [0, 6, 9 :: nat]"
    by simp_all
  with ie_offsets_packed [OF tr] tr show ?thesis
    by blast
qed

text \<open>
  C10. On every payload the appended text is an opening brace, a body and a closing
  brace, on each way out of the loop; the body neither begins with an opening brace nor
  ends with a closing one, so there is one brace at each end.
\<close>

theorem informationElementsToStream_braces:
  "\<exists>body. informationElementsToStream compact crc16 printableOnly s bytes =
             Inr (put s (''{'' @ body @ ''}''))
          \<and> take 1 body \<noteq> ''{'' \<and> take 1 (rev body) \<noteq> ''}''"
proof -
  obtain st' t where run: "ie_loop compact crc16 printableOnly bytes (ie_init compact crc16 s bytes) = Inr st'"
    "ss st' = put (ss (ie_init compact crc16 s bytes)) t" "plain_ends t"
    using ie_loop_appends by blast
  let ?sum = "ie_summary compact crc16 (fill s) bytes"
  have "plain_ends ?sum"
    by (simp add: ie_summary_def plain_ends_def)
  then have pe: "plain_ends (?sum @ t)"
    using run(3) by (rule plain_ends_append)
  have "informationElementsToStream compact crc16 printableOnly s bytes =
      Inr (put s (''{'' @ (?sum @ t) @ ''}''))"
    using run(1,2) by (simp add: informationElementsToStream_def ie_init_def ie_prologue_eq)
  with pe show ?thesis
    unfolding plain_ends_def by blast
qed

end
